theory Spec2Isabelle
  imports Main
begin

section \<open>Table reconstruction of \<open>table_processor.py\<close>\<close>

text \<open>
  The recognition service answers with JSON. \<open>process_table_data\<close> reads it through
  \<open>dict.get\<close> and \<open>dict[...]\<close>, so a key that is absent is part of the model: every field
  of a cell is an \<open>option\<close> whose \<open>None\<close> is the absent key. The numeric fields hold
  Python integers (\<open>int\<close>); the text of a cell is a JSON string or JSON null.
\<close>

subsection \<open>Values, exceptions, the response\<close>

datatype py_error = KeyError | IndexError | ValueError | InvalidIndexError | OSError | MemoryError

datatype pyval = PStr string | PNone

record cell =
  RowTl :: "int option"
  ColTl :: "int option"
  RowSpan :: "int option"
  ColSpan :: "int option"
  Text :: "pyval option"

record detection =
  Cells :: "cell list option"

record ocr_data =
  TableDetections :: "detection list option"

type_synonym grid = "pyval list list"

subsection \<open>Python lists: \<open>range\<close>, index normalisation, item assignment\<close>

definition py_range :: "int \<Rightarrow> int \<Rightarrow> int list" where
  "py_range a b = [a..b - 1]"

text \<open>
  \<open>xs[i]\<close> in Python counts a negative \<open>i\<close> from the end and raises \<open>IndexError\<close>
  outside \<open>-len(xs) \<le> i < len(xs)\<close>.
\<close>

definition py_index :: "'a list \<Rightarrow> int \<Rightarrow> py_error + nat" where
  "py_index xs i =
     (if 0 \<le> i \<and> i < int (length xs) then Inr (nat i)
      else if i < 0 \<and> - int (length xs) \<le> i then Inr (nat (int (length xs) + i))
      else Inl IndexError)"

text \<open>\<open>grid[r][c] = text\<close>: the rows of the grid are distinct list objects.\<close>

definition grid_set :: "grid \<Rightarrow> int \<Rightarrow> int \<Rightarrow> pyval \<Rightarrow> py_error + grid" where
  "grid_set g r c v =
     (case py_index g r of
        Inl e \<Rightarrow> Inl e
      | Inr i \<Rightarrow>
          (case py_index (g ! i) c of
             Inl e \<Rightarrow> Inl e
           | Inr j \<Rightarrow> Inr (g[i := (g ! i)[j := v]])))"

subsection \<open>Grid size (lines 74-75)\<close>

text \<open>
  \<open>cell["RowTl"] + cell.get("RowSpan", 1)\<close>: the subscript raises \<open>KeyError\<close> on a cell
  without the key, \<open>get\<close> supplies the default.
\<close>

definition row_end :: "cell \<Rightarrow> py_error + int" where
  "row_end c =
     (case RowTl c of
        None \<Rightarrow> Inl KeyError
      | Some r \<Rightarrow> Inr (r + (case RowSpan c of None \<Rightarrow> 1 | Some s \<Rightarrow> s)))"

definition col_end :: "cell \<Rightarrow> py_error + int" where
  "col_end c =
     (case ColTl c of
        None \<Rightarrow> Inl KeyError
      | Some r \<Rightarrow> Inr (r + (case ColSpan c of None \<Rightarrow> 1 | Some s \<Rightarrow> s)))"

text \<open>The generator handed to \<open>max\<close>: consumed in order, the first exception ends it.\<close>

fun gen_all :: "('a \<Rightarrow> py_error + int) \<Rightarrow> 'a list \<Rightarrow> py_error + int list" where
  "gen_all f [] = Inr []"
| "gen_all f (x # xs) =
     (case f x of
        Inl e \<Rightarrow> Inl e
      | Inr v \<Rightarrow> (case gen_all f xs of Inl e \<Rightarrow> Inl e | Inr vs \<Rightarrow> Inr (v # vs)))"

fun py_max :: "int list \<Rightarrow> py_error + int" where
  "py_max [] = Inl ValueError"
| "py_max (v # vs) = Inr (fold max vs v)"

definition max_of :: "('a \<Rightarrow> py_error + int) \<Rightarrow> 'a list \<Rightarrow> py_error + int" where
  "max_of f xs = (case gen_all f xs of Inl e \<Rightarrow> Inl e | Inr vs \<Rightarrow> py_max vs)"

subsection \<open>Filling the grid (lines 78-91)\<close>

definition init_grid :: "int \<Rightarrow> int \<Rightarrow> grid" where
  "init_grid max_row max_col = replicate (nat max_row) (replicate (nat max_col) (PStr ''''))"

fun fill_cols :: "grid \<Rightarrow> int \<Rightarrow> int list \<Rightarrow> pyval \<Rightarrow> py_error + grid" where
  "fill_cols g r [] v = Inr g"
| "fill_cols g r (c # cs) v =
     (case grid_set g r c v of Inl e \<Rightarrow> Inl e | Inr g' \<Rightarrow> fill_cols g' r cs v)"

fun fill_rows :: "grid \<Rightarrow> int list \<Rightarrow> int list \<Rightarrow> pyval \<Rightarrow> py_error + grid" where
  "fill_rows g [] cs v = Inr g"
| "fill_rows g (r # rs) cs v =
     (case fill_cols g r cs v of Inl e \<Rightarrow> Inl e | Inr g' \<Rightarrow> fill_rows g' rs cs v)"

definition row_start_of :: "cell \<Rightarrow> int" where
  "row_start_of c = (case RowTl c of None \<Rightarrow> 0 | Some r \<Rightarrow> r)"

definition col_start_of :: "cell \<Rightarrow> int" where
  "col_start_of c = (case ColTl c of None \<Rightarrow> 0 | Some r \<Rightarrow> r)"

definition row_span_of :: "cell \<Rightarrow> int" where
  "row_span_of c = (case RowSpan c of None \<Rightarrow> 1 | Some s \<Rightarrow> s)"

definition col_span_of :: "cell \<Rightarrow> int" where
  "col_span_of c = (case ColSpan c of None \<Rightarrow> 1 | Some s \<Rightarrow> s)"

definition text_of :: "cell \<Rightarrow> pyval" where
  "text_of c = (case Text c of None \<Rightarrow> PStr '''' | Some v \<Rightarrow> v)"

text \<open>The two \<open>range\<close> expressions of lines 89-90: the indices the loops of a cell visit.\<close>

definition row_range :: "int \<Rightarrow> cell \<Rightarrow> int list" where
  "row_range max_row c =
     py_range (row_start_of c) (min (row_start_of c + row_span_of c) max_row)"

definition col_range :: "int \<Rightarrow> cell \<Rightarrow> int list" where
  "col_range max_col c =
     py_range (col_start_of c) (min (col_start_of c + col_span_of c) max_col)"

definition fill_cell :: "int \<Rightarrow> int \<Rightarrow> grid \<Rightarrow> cell \<Rightarrow> py_error + grid" where
  "fill_cell max_row max_col g c =
     fill_rows g (row_range max_row c) (col_range max_col c) (text_of c)"

fun fill_cells :: "int \<Rightarrow> int \<Rightarrow> grid \<Rightarrow> cell list \<Rightarrow> py_error + grid" where
  "fill_cells max_row max_col g [] = Inr g"
| "fill_cells max_row max_col g (c # cs) =
     (case fill_cell max_row max_col g c of
        Inl e \<Rightarrow> Inl e
      | Inr g' \<Rightarrow> fill_cells max_row max_col g' cs)"

text \<open>Lines 74-91 for one detection: sizes, allocation, fill.\<close>

definition build_grid :: "cell list \<Rightarrow> py_error + grid" where
  "build_grid cells =
     (case max_of row_end cells of
        Inl e \<Rightarrow> Inl e
      | Inr max_row \<Rightarrow>
          (case max_of col_end cells of
             Inl e \<Rightarrow> Inl e
           | Inr max_col \<Rightarrow> fill_cells max_row max_col (init_grid max_row max_col) cells))"

subsection \<open>The pandas operations the source calls\<close>

text \<open>
  A DataFrame is its row labels, its column labels and its rows of values. A column
  label is an integer (from \<open>pd.DataFrame(grid)\<close>) or a string (the provenance column
  the batch adds). pandas counts \<open>None\<close> and \<open>NaN\<close> as missing, and no string, the empty
  string included.
\<close>

datatype label = IntL int | StrL string

record dataframe =
  df_index :: "int list"
  df_columns :: "label list"
  df_data :: "pyval list list"

definition isna :: "pyval \<Rightarrow> bool" where
  "isna v = (case v of PNone \<Rightarrow> True | PStr s \<Rightarrow> False)"

text \<open>
  \<open>pd.DataFrame(grid)\<close> on a list of equally long rows: a RangeIndex on both axes; the
  empty list gives the frame with no row and no column.
\<close>

definition DataFrame :: "grid \<Rightarrow> dataframe" where
  "DataFrame g =
     \<lparr>df_index = map int [0..<length g],
      df_columns = map (\<lambda>j. IntL (int j)) [0..<(case g of [] \<Rightarrow> 0 | row # _ \<Rightarrow> length row)],
      df_data = g\<rparr>"

text \<open>
  \<open>df.dropna(how='all')\<close> keeps the rows that hold at least one value that is not
  missing, with their labels; \<open>df.dropna(axis=1, how='all')\<close> does the same to columns.
\<close>

definition row_kept :: "pyval list \<Rightarrow> bool" where
  "row_kept row = list_ex (\<lambda>v. \<not> isna v) row"

definition dropna_rows :: "dataframe \<Rightarrow> dataframe" where
  "dropna_rows df =
     (let kept = filter (\<lambda>p. row_kept (snd p)) (zip (df_index df) (df_data df))
      in df\<lparr>df_index := map fst kept, df_data := map snd kept\<rparr>)"

definition col_kept :: "pyval list list \<Rightarrow> nat \<Rightarrow> bool" where
  "col_kept rows j = list_ex (\<lambda>row. \<not> isna (row ! j)) rows"

text \<open>The positional selection \<open>df.loc(axis=1)[keep]\<close> of the kept columns.\<close>

definition kept_cols :: "dataframe \<Rightarrow> nat list" where
  "kept_cols df = filter (col_kept (df_data df)) [0..<length (df_columns df)]"

definition take_cols :: "nat list \<Rightarrow> 'a list \<Rightarrow> 'a list" where
  "take_cols js xs = map (\<lambda>j. xs ! j) js"

definition dropna_cols :: "dataframe \<Rightarrow> dataframe" where
  "dropna_cols df =
     df\<lparr>df_columns := take_cols (kept_cols df) (df_columns df),
        df_data := map (take_cols (kept_cols df)) (df_data df)\<rparr>"

definition reset_index :: "dataframe \<Rightarrow> dataframe" where
  "reset_index df = df\<lparr>df_index := map int [0..<length (df_data df)]\<rparr>"

text \<open>Lines 99-100: the cleanup of the enhanced mode.\<close>

definition enhanced_cleanup :: "dataframe \<Rightarrow> dataframe" where
  "enhanced_cleanup df = reset_index (dropna_cols (dropna_rows df))"

subsection \<open>\<open>process_table_data\<close> (lines 62-108)\<close>

text \<open>The body of the loop for a detection that has cells (lines 74-102).\<close>

definition process_table :: "cell list \<Rightarrow> string \<Rightarrow> py_error + dataframe" where
  "process_table cells processing_mode =
     (case build_grid cells of
        Inl e \<Rightarrow> Inl e
      | Inr g \<Rightarrow>
          Inr (if processing_mode = ''enhanced'' then enhanced_cleanup (DataFrame g)
               else DataFrame g))"

text \<open>\<open>not table.get("Cells")\<close>: the key is absent or its list is empty.\<close>

definition no_cells :: "detection \<Rightarrow> bool" where
  "no_cells t = (case Cells t of None \<Rightarrow> True | Some cs \<Rightarrow> cs = [])"

definition cells_of :: "detection \<Rightarrow> cell list" where
  "cells_of t = (case Cells t of None \<Rightarrow> [] | Some cs \<Rightarrow> cs)"

text \<open>
  The loop of lines 69-102; the result is the list \<open>tables\<close> in the order of the appends.
  An exception in any detection ends the loop.
\<close>

fun collect_tables :: "detection list \<Rightarrow> string \<Rightarrow> py_error + dataframe list" where
  "collect_tables [] processing_mode = Inr []"
| "collect_tables (t # ts) processing_mode =
     (if no_cells t then collect_tables ts processing_mode
      else
        (case process_table (cells_of t) processing_mode of
           Inl e \<Rightarrow> Inl e
         | Inr df \<Rightarrow>
             (case collect_tables ts processing_mode of
                Inl e \<Rightarrow> Inl e
              | Inr dfs \<Rightarrow> Inr (df # dfs))))"

text \<open>The statements inside \<open>try\<close> (lines 65-104).\<close>

definition process_table_data_body :: "ocr_data \<Rightarrow> string \<Rightarrow> py_error + dataframe option" where
  "process_table_data_body ocr processing_mode =
     (case TableDetections ocr of
        None \<Rightarrow> Inr None
      | Some [] \<Rightarrow> Inr None
      | Some (t # ts) \<Rightarrow>
          (case collect_tables (t # ts) processing_mode of
             Inl e \<Rightarrow> Inl e
           | Inr [] \<Rightarrow> Inr None
           | Inr (df # _) \<Rightarrow> Inr (Some df)))"

text \<open>
  The whole function: \<open>except Exception\<close> reports the error on the page and returns
  \<open>None\<close>. \<open>Inl\<close> would be an exception leaving the function.
\<close>

definition process_table_data :: "ocr_data \<Rightarrow> string \<Rightarrow> py_error + dataframe option" where
  "process_table_data ocr processing_mode =
     (case process_table_data_body ocr processing_mode of
        Inl e \<Rightarrow> Inr None
      | Inr r \<Rightarrow> Inr r)"

subsection \<open>The image pipeline (lines 33-59 and 111-139)\<close>

text \<open>
  The imaging library, the JPEG and base64 encoding and the recognition service are
  outside the repository: they are parameters, each call returning its result or the
  exception it raises. \<open>'i\<close> is the type of images, \<open>'f\<close> of uploaded files.
\<close>

type_synonym box = "nat \<times> nat \<times> nat \<times> nat"

record ('f, 'i) services =
  image_open :: "'f \<Rightarrow> py_error + 'i"
  mode_of :: "'i \<Rightarrow> string"
  size_of :: "'i \<Rightarrow> nat \<times> nat"
  convert_rgb :: "'i \<Rightarrow> py_error + 'i"
  new_white :: "nat \<times> nat \<Rightarrow> py_error + 'i"
  difference :: "'i \<Rightarrow> 'i \<Rightarrow> py_error + 'i"
  getbbox :: "'i \<Rightarrow> py_error + box option"
  crop :: "'i \<Rightarrow> box \<Rightarrow> py_error + 'i"
  expand_white_20 :: "'i \<Rightarrow> py_error + 'i"
  thumbnail_2000 :: "'i \<Rightarrow> py_error + 'i"
  save_jpeg_b64 :: "'i \<Rightarrow> py_error + string"
  recognize :: "string \<Rightarrow> py_error + ocr_data"

text \<open>
  The statements inside \<open>try\<close> of \<open>preprocess_image\<close>. The handler returns the variable
  \<open>img\<close>, so an exception is modelled with the image that \<open>img\<close> is bound to when it is
  raised: \<open>Inl\<close> carries that image, \<open>Inr\<close> the image of \<open>return img\<close>.
\<close>

definition enhance :: "('f, 'i) services \<Rightarrow> 'i \<Rightarrow> 'i + 'i" where
  "enhance L img =
     (case new_white L (size_of L img) of
        Inl e \<Rightarrow> Inl img
      | Inr bg \<Rightarrow>
          (case difference L img bg of
             Inl e \<Rightarrow> Inl img
           | Inr diff \<Rightarrow>
               (case getbbox L diff of
                  Inl e \<Rightarrow> Inl img
                | Inr bbox \<Rightarrow>
                    (case (case bbox of None \<Rightarrow> Inr img | Some b \<Rightarrow> crop L img b) of
                       Inl e \<Rightarrow> Inl img
                     | Inr img' \<Rightarrow>
                         (case expand_white_20 L img' of
                            Inl e \<Rightarrow> Inl img'
                          | Inr img'' \<Rightarrow> Inr img'')))))"

definition preprocess_image_try :: "('f, 'i) services \<Rightarrow> 'i \<Rightarrow> string \<Rightarrow> 'i + 'i" where
  "preprocess_image_try L img mode =
     (case (if mode_of L img \<noteq> ''RGB'' then convert_rgb L img else Inr img) of
        Inl e \<Rightarrow> Inl img
      | Inr img1 \<Rightarrow>
          (case (if mode = ''enhanced'' then enhance L img1 else Inr img1) of
             Inl img_at_raise \<Rightarrow> Inl img_at_raise
           | Inr img2 \<Rightarrow>
               (if max (fst (size_of L img2)) (snd (size_of L img2)) > 2000
                then (case thumbnail_2000 L img2 of Inl e \<Rightarrow> Inl img2 | Inr img3 \<Rightarrow> Inr img3)
                else Inr img2)))"

definition preprocess_image :: "('f, 'i) services \<Rightarrow> 'i \<Rightarrow> string \<Rightarrow> 'i" where
  "preprocess_image L img mode =
     (case preprocess_image_try L img mode of Inl img_at_raise \<Rightarrow> img_at_raise | Inr r \<Rightarrow> r)"

definition process_single_image :: "('f, 'i) services \<Rightarrow> 'i \<Rightarrow> string \<Rightarrow> dataframe option" where
  "process_single_image L img processing_mode =
     (let img' = preprocess_image L img
                   (if processing_mode = ''enhanced'' then ''enhanced'' else ''default'')
      in case save_jpeg_b64 L img' of
           Inl e \<Rightarrow> None
         | Inr img_base64 \<Rightarrow>
             (if length img_base64 < 100 then None
              else
                (case recognize L img_base64 of
                   Inl e \<Rightarrow> None
                 | Inr resp \<Rightarrow>
                     (case process_table_data resp processing_mode of
                        Inl e \<Rightarrow> None
                      | Inr r \<Rightarrow> r))))"

subsection \<open>The batch of \<open>main\<close> (lines 174-217)\<close>

text \<open>The column label \<open>"_\<dots>"\<close> of line 187, as its UTF-8 bytes.\<close>

definition source_column :: label where
  "source_column =
     StrL [CHR ''_'', CHR 0xE6, CHR 0x9D, CHR 0xA5, CHR 0xE6, CHR 0xBA, CHR 0x90,
           CHR 0xE6, CHR 0x96, CHR 0x87, CHR 0xE4, CHR 0xBB, CHR 0xB6]"

text \<open>\<open>df[key] = scalar\<close>: overwrite the column of that label, or append a new one.\<close>

definition set_column :: "dataframe \<Rightarrow> label \<Rightarrow> pyval \<Rightarrow> dataframe" where
  "set_column df l v =
     (if l \<in> set (df_columns df)
      then df\<lparr>df_data :=
                map (\<lambda>row. map (\<lambda>p. if fst p = l then v else snd p) (zip (df_columns df) row))
                  (df_data df)\<rparr>
      else df\<lparr>df_columns := df_columns df @ [l],
                df_data := map (\<lambda>row. row @ [v]) (df_data df)\<rparr>)"

text \<open>
  \<open>pd.concat(frames, ignore_index=True)\<close>: an outer join on the columns. The labels of
  the result are the labels of the frames in the order of their first appearance; a
  row gets the missing value in a column its frame lacks; the rows are renumbered.
  pandas refuses to realign a frame whose labels repeat.
\<close>

fun uniq :: "'a list \<Rightarrow> 'a list \<Rightarrow> 'a list" where
  "uniq seen [] = seen"
| "uniq seen (x # xs) = (if x \<in> set seen then uniq seen xs else uniq (seen @ [x]) xs)"

definition union_columns :: "dataframe list \<Rightarrow> label list" where
  "union_columns dfs = uniq [] (concat (map df_columns dfs))"

definition value_at :: "label list \<Rightarrow> pyval list \<Rightarrow> label \<Rightarrow> pyval" where
  "value_at cols row l = (case map_of (zip cols row) l of None \<Rightarrow> PNone | Some v \<Rightarrow> v)"

definition reindex_row :: "label list \<Rightarrow> label list \<Rightarrow> pyval list \<Rightarrow> pyval list" where
  "reindex_row u cols row = map (value_at cols row) u"

definition pd_concat :: "dataframe list \<Rightarrow> py_error + dataframe" where
  "pd_concat dfs =
     (if dfs = [] then Inl ValueError
      else if list_all (\<lambda>df. df_columns df = df_columns (hd dfs)) dfs
      then Inr \<lparr>df_index = map int [0..<length (concat (map df_data dfs))],
                df_columns = df_columns (hd dfs),
                df_data = concat (map df_data dfs)\<rparr>
      else if list_all (\<lambda>df. distinct (df_columns df)) dfs
      then
        (let u = union_columns dfs;
             rows = concat (map (\<lambda>df. map (reindex_row u (df_columns df)) (df_data df)) dfs)
         in Inr \<lparr>df_index = map int [0..<length rows], df_columns = u, df_data = rows\<rparr>)
      else Inl InvalidIndexError)"

text \<open>
  The loop of lines 178-191 with its accumulator \<open>all_data\<close>; a file is its name and
  its content.
\<close>

fun accumulate ::
  "('f, 'i) services \<Rightarrow> string \<Rightarrow> dataframe list \<Rightarrow> (string \<times> 'f) list \<Rightarrow> dataframe list" where
  "accumulate L processing_mode all_data [] = all_data"
| "accumulate L processing_mode all_data (file # files) =
     (case image_open L (snd file) of
        Inl e \<Rightarrow> accumulate L processing_mode all_data files
      | Inr img \<Rightarrow>
          (case process_single_image L img processing_mode of
             None \<Rightarrow> accumulate L processing_mode all_data files
           | Some df \<Rightarrow>
               accumulate L processing_mode
                 (all_data @ [set_column df source_column (PStr (fst file))]) files))"

datatype batch_result = NoValidData | Combined dataframe | MergeFailed py_error

definition run_batch :: "('f, 'i) services \<Rightarrow> string \<Rightarrow> (string \<times> 'f) list \<Rightarrow> batch_result" where
  "run_batch L processing_mode files =
     (let all_data = accumulate L processing_mode [] files
      in if all_data = [] then NoValidData
         else (case pd_concat all_data of Inl e \<Rightarrow> MergeFailed e | Inr final_df \<Rightarrow> Combined final_df))"

section \<open>Notions of the statements\<close>

text \<open>
  The rectangle of a cell: the grid positions \<open>(r, k)\<close> of its rows
  \<open>[row_start, row_start + row_span)\<close> and columns \<open>[col_start, col_start + col_span)\<close>.
\<close>

definition row_extent :: "cell \<Rightarrow> int" where
  "row_extent c = row_start_of c + row_span_of c"

definition col_extent :: "cell \<Rightarrow> int" where
  "col_extent c = col_start_of c + col_span_of c"

definition covers :: "cell \<Rightarrow> int \<Rightarrow> int \<Rightarrow> bool" where
  "covers c r k \<longleftrightarrow>
     row_start_of c \<le> r \<and> r < row_start_of c + row_span_of c \<and>
     col_start_of c \<le> k \<and> k < col_start_of c + col_span_of c"

text \<open>
  The cells of the data model: both start keys are present and not negative
  (\<open>start_ok\<close>), and a span is at least one (\<open>span_ok\<close>; an absent span is one).
\<close>

definition start_ok :: "cell \<Rightarrow> bool" where
  "start_ok c \<longleftrightarrow>
     (case RowTl c of None \<Rightarrow> False | Some r \<Rightarrow> 0 \<le> r) \<and>
     (case ColTl c of None \<Rightarrow> False | Some k \<Rightarrow> 0 \<le> k)"

definition span_ok :: "cell \<Rightarrow> bool" where
  "span_ok c \<longleftrightarrow> 1 \<le> row_span_of c \<and> 1 \<le> col_span_of c"



definition response_of :: "cell list \<Rightarrow> ocr_data" where
  "response_of cells = \<lparr>TableDetections = Some [\<lparr>Cells = Some cells\<rparr>]\<rparr>"

text \<open>The cell list of the example in the specification.\<close>

definition example_cells :: "cell list" where
  "example_cells =
     [\<lparr>RowTl = Some 0, ColTl = Some 0, RowSpan = Some 1, ColSpan = Some 2, Text = Some (PStr ''Name'')\<rparr>,
      \<lparr>RowTl = Some 0, ColTl = Some 2, RowSpan = Some 1, ColSpan = Some 1, Text = Some (PStr ''Age'')\<rparr>,
      \<lparr>RowTl = Some 1, ColTl = Some 0, RowSpan = Some 1, ColSpan = Some 1, Text = Some (PStr ''Ann'')\<rparr>,
      \<lparr>RowTl = Some 1, ColTl = Some 1, RowSpan = Some 1, ColSpan = Some 1, Text = Some (PStr ''30'')\<rparr>,
      \<lparr>RowTl = Some 1, ColTl = Some 2, RowSpan = Some 1, ColSpan = Some 1, Text = Some (PStr '''')\<rparr>]"

text \<open>Two cells on the diagonal of a 3 x 3 grid: row 1 and column 1 stay blank.\<close>

definition gap_cells :: "cell list" where
  "gap_cells =
     [\<lparr>RowTl = Some 0, ColTl = Some 0, RowSpan = Some 1, ColSpan = Some 1, Text = Some (PStr ''A'')\<rparr>,
      \<lparr>RowTl = Some 2, ColTl = Some 2, RowSpan = Some 1, ColSpan = Some 1, Text = Some (PStr ''B'')\<rparr>]"

text \<open>Two cells that overlap at position \<open>(0, 1)\<close>.\<close>

definition overlap_cells :: "cell list" where
  "overlap_cells =
     [\<lparr>RowTl = Some 0, ColTl = Some 0, RowSpan = Some 1, ColSpan = Some 2, Text = Some (PStr ''A'')\<rparr>,
      \<lparr>RowTl = Some 0, ColTl = Some 1, RowSpan = Some 1, ColSpan = Some 1, Text = Some (PStr ''B'')\<rparr>]"

text \<open>A cell without the key \<open>RowTl\<close>.\<close>

definition malformed_cells :: "cell list" where
  "malformed_cells =
     [\<lparr>RowTl = None, ColTl = Some 0, RowSpan = None, ColSpan = None, Text = Some (PStr ''x'')\<rparr>]"

text \<open>A response whose first detection has no cells and whose second has the example's.\<close>

definition second_detection_response :: ocr_data where
  "second_detection_response =
     \<lparr>TableDetections = Some [\<lparr>Cells = Some []\<rparr>, \<lparr>Cells = Some example_cells\<rparr>]\<rparr>"

text \<open>
  A response whose first detection has no cells and whose second has a cell without
  the key \<open>RowTl\<close>.
\<close>

definition malformed_second_response :: ocr_data where
  "malformed_second_response =
     \<lparr>TableDetections = Some [\<lparr>Cells = Some []\<rparr>, \<lparr>Cells = Some malformed_cells\<rparr>]\<rparr>"

section \<open>Invariants of the fill loop\<close>

text \<open>
  \<open>rect g m n\<close>: the grid has \<open>m\<close> rows of \<open>n\<close> entries. \<open>wrote g g' P v m n\<close>: \<open>g'\<close> is \<open>g\<close>
  with \<open>v\<close> at the positions in \<open>P\<close>. \<open>clipped\<close>: the rectangle of a cell cut at the sizes.
\<close>

definition rect :: "grid \<Rightarrow> nat \<Rightarrow> nat \<Rightarrow> bool" where
  "rect g m n \<longleftrightarrow> length g = m \<and> list_all (\<lambda>row. length row = n) g"

definition wrote :: "grid \<Rightarrow> grid \<Rightarrow> (nat \<Rightarrow> nat \<Rightarrow> bool) \<Rightarrow> pyval \<Rightarrow> nat \<Rightarrow> nat \<Rightarrow> bool" where
  "wrote g g' P v m n \<longleftrightarrow>
     rect g' m n \<and> (\<forall>i<m. \<forall>j<n. g' ! i ! j = (if P i j then v else g ! i ! j))"

definition clipped :: "int \<Rightarrow> int \<Rightarrow> cell \<Rightarrow> nat \<Rightarrow> nat \<Rightarrow> bool" where
  "clipped mr mc c i j \<longleftrightarrow>
     row_start_of c \<le> int i \<and> int i < min (row_extent c) mr \<and>
     col_start_of c \<le> int j \<and> int j < min (col_extent c) mc"


text \<open>
  A cell with JSON null as its text over both rows of column 0, and two cells with text
  in column 1.
\<close>

definition null_column_cells :: "cell list" where
  "null_column_cells =
     [\<lparr>RowTl = Some 0, ColTl = Some 0, RowSpan = Some 2, ColSpan = Some 1, Text = Some PNone\<rparr>,
      \<lparr>RowTl = Some 0, ColTl = Some 1, RowSpan = Some 1, ColSpan = Some 1, Text = Some (PStr ''A'')\<rparr>,
      \<lparr>RowTl = Some 1, ColTl = Some 1, RowSpan = Some 1, ColSpan = Some 1, Text = Some (PStr ''B'')\<rparr>]"

text \<open>
  \<open>frame_ok\<close>: every row of a frame has one value per column label.
\<close>

definition frame_ok :: "dataframe \<Rightarrow> bool" where
  "frame_ok df \<longleftrightarrow> list_all (\<lambda>row. length row = length (df_columns df)) (df_data df)"

section \<open>Notions of the batch statements\<close>

text \<open>
  The Table one file contributes to \<open>all_data\<close> (lines 183-188): nothing when the image
  cannot be opened or when \<open>process_single_image\<close> returns \<open>None\<close>; otherwise its Table
  with the provenance column.
\<close>

definition file_table :: "('f, 'i) services \<Rightarrow> string \<Rightarrow> string \<times> 'f \<Rightarrow> dataframe option" where
  "file_table L processing_mode file =
     (case image_open L (snd file) of
        Inl e \<Rightarrow> None
      | Inr img \<Rightarrow>
          (case process_single_image L img processing_mode of
             None \<Rightarrow> None
           | Some df \<Rightarrow> Some (set_column df source_column (PStr (fst file)))))"

text \<open>
  \<open>table_ok\<close>: a frame whose rows fit its column labels and whose labels do not repeat.
\<close>

definition int_label :: "label \<Rightarrow> bool" where
  "int_label l = (case l of IntL j \<Rightarrow> True | StrL s \<Rightarrow> False)"

definition table_ok :: "dataframe \<Rightarrow> bool" where
  "table_ok df \<longleftrightarrow> frame_ok df \<and> distinct (df_columns df)"

text \<open>
  Stand-ins for the services, to run the pipeline on: an image is its mode and its
  size, a file is a number. In \<open>demo_services\<close> file 0 cannot be opened, file 1 is
  recognised as the example's cells, file 2 as \<open>overlap_cells\<close>, any other file as a
  response without detections. In \<open>failing_services\<close> the conversion to RGB and the crop
  succeed, and the border and the downscaling raise.
\<close>

type_synonym toy_image = "string \<times> (nat \<times> nat)"

definition demo_services :: "(nat, toy_image) services" where
  "demo_services =
     \<lparr>image_open = (\<lambda>f. if f = 0 then Inl OSError else Inr (''RGB'', (f, f))),
      mode_of = fst,
      size_of = snd,
      convert_rgb = (\<lambda>i. Inr (''RGB'', snd i)),
      new_white = (\<lambda>s. Inr (''RGB'', s)),
      difference = (\<lambda>a b. Inr a),
      getbbox = (\<lambda>i. Inr None),
      crop = (\<lambda>i b. Inr i),
      expand_white_20 = (\<lambda>i. Inr (fst i, (fst (snd i) + 40, snd (snd i) + 40))),
      thumbnail_2000 = (\<lambda>i. Inr i),
      save_jpeg_b64 = (\<lambda>i. Inr (replicate (100 + fst (snd i)) (CHR ''A''))),
      recognize = (\<lambda>s. if length s = 101 then Inr (response_of example_cells)
                        else if length s = 102 then Inr (response_of overlap_cells)
                        else Inr \<lparr>TableDetections = None\<rparr>)\<rparr>"

definition demo_files :: "(string \<times> nat) list" where
  "demo_files = [(''a.png'', 1), (''bad.png'', 0), (''b.png'', 2), (''none.png'', 3)]"

definition failing_services :: "(nat, toy_image) services" where
  "failing_services =
     \<lparr>image_open = (\<lambda>f. Inr (''L'', (f, f))),
      mode_of = fst,
      size_of = snd,
      convert_rgb = (\<lambda>i. Inr (''RGB'', snd i)),
      new_white = (\<lambda>s. Inr (''RGB'', s)),
      difference = (\<lambda>a b. Inr a),
      getbbox = (\<lambda>i. Inr (Some (5, 5, 15, 15))),
      crop = (\<lambda>i b. Inr (fst i, (10, 10))),
      expand_white_20 = (\<lambda>i. Inl MemoryError),
      thumbnail_2000 = (\<lambda>i. Inl MemoryError),
      save_jpeg_b64 = (\<lambda>i. Inr (replicate 100 (CHR ''A''))),
      recognize = (\<lambda>s. Inr \<lparr>TableDetections = None\<rparr>)\<rparr>"

definition gray_image :: toy_image where
  "gray_image = (''L'', (3000, 1000))"

section \<open>Lemmas about the fill loop\<close>

lemma rectD: "rect g m n \<Longrightarrow> i < m \<Longrightarrow> length (g ! i) = n"
  by (simp add: rect_def list_all_length)

lemma rect_length: "rect g m n \<Longrightarrow> length g = m"
  by (simp add: rect_def)

lemma rect_init: "rect (init_grid mr mc) (nat mr) (nat mc)"
  by (simp add: rect_def init_grid_def list_all_length)

lemma rect_update: "rect g m n \<Longrightarrow> rect (g[i := (g ! i)[j := v]]) m n"
  by (cases "i < length g") (auto simp: rect_def list_all_length nth_list_update)

lemma grid_set_rect: "grid_set g r c v = Inr g' \<Longrightarrow> rect g m n \<Longrightarrow> rect g' m n"
  by (auto simp: grid_set_def rect_update split: sum.splits)

lemma fill_cols_rect: "fill_cols g r cs v = Inr g' \<Longrightarrow> rect g m n \<Longrightarrow> rect g' m n"
  by (induction cs arbitrary: g) (auto split: sum.splits dest: grid_set_rect)

lemma fill_rows_rect: "fill_rows g rs cs v = Inr g' \<Longrightarrow> rect g m n \<Longrightarrow> rect g' m n"
  by (induction rs arbitrary: g) (auto split: sum.splits dest: fill_cols_rect)

lemma fill_cell_rect: "fill_cell mr mc g c = Inr g' \<Longrightarrow> rect g m n \<Longrightarrow> rect g' m n"
  unfolding fill_cell_def by (rule fill_rows_rect)

lemma fill_cells_rect: "fill_cells mr mc g cs = Inr g' \<Longrightarrow> rect g m n \<Longrightarrow> rect g' m n"
  by (induction cs arbitrary: g) (auto split: sum.splits dest: fill_cell_rect)

lemma py_index_in: "0 \<le> i \<Longrightarrow> i < int (length xs) \<Longrightarrow> py_index xs i = Inr (nat i)"
  by (simp add: py_index_def)

lemma grid_set_in:
  assumes "rect g m n" "0 \<le> r" "r < int m" "0 \<le> c" "c < int n"
  shows "grid_set g r c v = Inr (g[nat r := (g ! nat r)[nat c := v]])"
proof -
  have "py_index g r = Inr (nat r)"
    using assms by (simp add: py_index_in rect_length)
  moreover have "length (g ! nat r) = n"
    using assms by (intro rectD[of g m n]) auto
  then have "py_index (g ! nat r) c = Inr (nat c)"
    using assms by (simp add: py_index_in)
  ultimately show ?thesis by (simp add: grid_set_def)
qed

lemma fill_cols_in:
  assumes "rect g m n" "0 \<le> r" "r < int m" "\<forall>c\<in>set cs. 0 \<le> c \<and> c < int n"
  shows "\<exists>g'. fill_cols g r cs v = Inr g' \<and>
           wrote g g' (\<lambda>i j. i = nat r \<and> int j \<in> set cs) v m n"
  using assms
proof (induction cs arbitrary: g)
  case Nil
  then show ?case by (simp add: wrote_def)
next
  case (Cons c cs)
  let ?g1 = "g[nat r := (g ! nat r)[nat c := v]]"
  have s: "grid_set g r c v = Inr ?g1"
    using Cons.prems by (intro grid_set_in[of g m n]) auto
  have r1: "rect ?g1 m n" using Cons.prems(1) by (rule rect_update)
  obtain g' where g': "fill_cols ?g1 r cs v = Inr g'"
    and w: "wrote ?g1 g' (\<lambda>i j. i = nat r \<and> int j \<in> set cs) v m n"
    using Cons.IH[OF r1] Cons.prems by auto
  have "wrote g g' (\<lambda>i j. i = nat r \<and> int j \<in> set (c # cs)) v m n"
    unfolding wrote_def
  proof (intro conjI allI impI)
    show "rect g' m n" using w by (simp add: wrote_def)
  next
    fix i j assume ij: "i < m" "j < n"
    have lg: "length g = m" using Cons.prems(1) by (rule rect_length)
    have li: "length (g ! i) = n" using Cons.prems(1) ij(1) by (rule rectD)
    have "g' ! i ! j = (if i = nat r \<and> int j \<in> set cs then v else ?g1 ! i ! j)"
      using w ij by (simp add: wrote_def)
    moreover have "?g1 ! i ! j = (if i = nat r \<and> j = nat c then v else g ! i ! j)"
    proof (cases "i = nat r")
      case True
      then show ?thesis using ij lg li by (simp add: nth_list_update)
    next
      case False
      then show ?thesis by simp
    qed
    moreover have "j = nat c \<longleftrightarrow> int j = c" using Cons.prems by auto
    ultimately show "g' ! i ! j = (if i = nat r \<and> int j \<in> set (c # cs) then v else g ! i ! j)"
      by auto
  qed
  with s g' show ?case by auto
qed

lemma fill_rows_in:
  assumes "rect g m n" "\<forall>r\<in>set rs. 0 \<le> r \<and> r < int m" "\<forall>c\<in>set cs. 0 \<le> c \<and> c < int n"
  shows "\<exists>g'. fill_rows g rs cs v = Inr g' \<and>
           wrote g g' (\<lambda>i j. int i \<in> set rs \<and> int j \<in> set cs) v m n"
  using assms
proof (induction rs arbitrary: g)
  case Nil
  then show ?case by (simp add: wrote_def)
next
  case (Cons r rs)
  obtain g1 where g1: "fill_cols g r cs v = Inr g1"
    and w1: "wrote g g1 (\<lambda>i j. i = nat r \<and> int j \<in> set cs) v m n"
    using fill_cols_in[of g m n r cs v] Cons.prems by auto
  have r1: "rect g1 m n" using w1 by (simp add: wrote_def)
  obtain g' where g': "fill_rows g1 rs cs v = Inr g'"
    and w: "wrote g1 g' (\<lambda>i j. int i \<in> set rs \<and> int j \<in> set cs) v m n"
    using Cons.IH[OF r1] Cons.prems by auto
  have "0 \<le> r" using Cons.prems by simp
  then have eq: "\<And>i. i = nat r \<longleftrightarrow> int i = r" by auto
  have "wrote g g' (\<lambda>i j. int i \<in> set (r # rs) \<and> int j \<in> set cs) v m n"
    using w w1 unfolding wrote_def by (auto simp: eq)
  with g1 g' show ?case by auto
qed

lemma set_py_range: "set (py_range a b) = {a..<b}"
  by (auto simp: py_range_def)

lemma gen_all_row_end_ok:
  "list_all (\<lambda>c. RowTl c \<noteq> None) cs \<Longrightarrow> gen_all row_end cs = Inr (map row_extent cs)"
  by (induction cs)
    (auto simp: row_end_def row_extent_def row_start_of_def row_span_of_def split: option.splits)

lemma gen_all_row_end_Inr:
  "gen_all row_end cs = Inr vs \<Longrightarrow> list_all (\<lambda>c. RowTl c \<noteq> None) cs"
  by (induction cs arbitrary: vs) (auto simp: row_end_def split: sum.splits option.splits)

lemma gen_all_row_end:
  "gen_all row_end cs = Inr vs \<longleftrightarrow> list_all (\<lambda>c. RowTl c \<noteq> None) cs \<and> vs = map row_extent cs"
  using gen_all_row_end_ok[of cs] gen_all_row_end_Inr[of cs vs] by auto

lemma gen_all_col_end_ok:
  "list_all (\<lambda>c. ColTl c \<noteq> None) cs \<Longrightarrow> gen_all col_end cs = Inr (map col_extent cs)"
  by (induction cs)
    (auto simp: col_end_def col_extent_def col_start_of_def col_span_of_def split: option.splits)

lemma gen_all_col_end_Inr:
  "gen_all col_end cs = Inr vs \<Longrightarrow> list_all (\<lambda>c. ColTl c \<noteq> None) cs"
  by (induction cs arbitrary: vs) (auto simp: col_end_def split: sum.splits option.splits)

lemma gen_all_col_end:
  "gen_all col_end cs = Inr vs \<longleftrightarrow> list_all (\<lambda>c. ColTl c \<noteq> None) cs \<and> vs = map col_extent cs"
  using gen_all_col_end_ok[of cs] gen_all_col_end_Inr[of cs vs] by auto

lemma py_max_Inr: "py_max vs = Inr m \<longleftrightarrow> vs \<noteq> [] \<and> m = Max (set vs)"
proof (cases vs)
  case Nil
  then show ?thesis by simp
next
  case (Cons a list)
  have "fold max list a = Max (set (a # list))" by (rule Max.set_eq_fold[symmetric])
  with Cons show ?thesis by auto
qed

lemma max_of_row_end:
  "max_of row_end cs = Inr m \<longleftrightarrow>
     cs \<noteq> [] \<and> list_all (\<lambda>c. RowTl c \<noteq> None) cs \<and> m = Max (row_extent ` set cs)"
proof (cases "gen_all row_end cs")
  case (Inl e)
  then have "\<not> list_all (\<lambda>c. RowTl c \<noteq> None) cs"
    using gen_all_row_end[of cs "map row_extent cs"] by auto
  with Inl show ?thesis by (simp add: max_of_def)
next
  case (Inr vs)
  then show ?thesis using gen_all_row_end[of cs vs] by (auto simp: max_of_def py_max_Inr)
qed

lemma max_of_col_end:
  "max_of col_end cs = Inr m \<longleftrightarrow>
     cs \<noteq> [] \<and> list_all (\<lambda>c. ColTl c \<noteq> None) cs \<and> m = Max (col_extent ` set cs)"
proof (cases "gen_all col_end cs")
  case (Inl e)
  then have "\<not> list_all (\<lambda>c. ColTl c \<noteq> None) cs"
    using gen_all_col_end[of cs "map col_extent cs"] by auto
  with Inl show ?thesis by (simp add: max_of_def)
next
  case (Inr vs)
  then show ?thesis using gen_all_col_end[of cs vs] by (auto simp: max_of_def py_max_Inr)
qed

lemma fill_cell_in:
  assumes "rect g (nat mr) (nat mc)" "0 \<le> row_start_of c" "0 \<le> col_start_of c"
  shows "\<exists>g'. fill_cell mr mc g c = Inr g' \<and>
           wrote g g' (clipped mr mc c) (text_of c) (nat mr) (nat mc)"
proof -
  let ?rs = "row_range mr c" and ?cs = "col_range mc c"
  have a: "\<forall>r\<in>set ?rs. 0 \<le> r \<and> r < int (nat mr)"
    using assms(2) by (auto simp: row_range_def set_py_range)
  have b: "\<forall>k\<in>set ?cs. 0 \<le> k \<and> k < int (nat mc)"
    using assms(3) by (auto simp: col_range_def set_py_range)
  obtain g' where g': "fill_rows g ?rs ?cs (text_of c) = Inr g'"
    and w: "wrote g g' (\<lambda>i j. int i \<in> set ?rs \<and> int j \<in> set ?cs) (text_of c) (nat mr) (nat mc)"
    using fill_rows_in[OF assms(1) a b, of "text_of c"] by auto
  have "(\<lambda>i j. int i \<in> set ?rs \<and> int j \<in> set ?cs) = clipped mr mc c"
    by (intro ext)
      (auto simp: clipped_def row_range_def col_range_def set_py_range row_extent_def
        col_extent_def)
  with g' w show ?thesis by (simp add: fill_cell_def)
qed

lemma fill_cells_append:
  "fill_cells mr mc g (xs @ ys) =
     (case fill_cells mr mc g xs of Inl e \<Rightarrow> Inl e | Inr g' \<Rightarrow> fill_cells mr mc g' ys)"
  by (induction xs arbitrary: g) (auto split: sum.splits)

lemma fill_cells_in:
  assumes "rect g (nat mr) (nat mc)"
    and "list_all (\<lambda>c. 0 \<le> row_start_of c \<and> 0 \<le> col_start_of c) cs"
  shows "\<exists>g'. fill_cells mr mc g cs = Inr g' \<and> rect g' (nat mr) (nat mc) \<and>
           (\<forall>i<nat mr. \<forall>j<nat mc.
              g' ! i ! j = (case find (\<lambda>c. clipped mr mc c i j) (rev cs) of
                              None \<Rightarrow> g ! i ! j | Some c \<Rightarrow> text_of c))"
  using assms(2)
proof (induction cs rule: rev_induct)
  case Nil
  then show ?case using assms(1) by simp
next
  case (snoc c cs)
  obtain g1 where g1: "fill_cells mr mc g cs = Inr g1" and r1: "rect g1 (nat mr) (nat mc)"
    and v1: "\<forall>i<nat mr. \<forall>j<nat mc.
              g1 ! i ! j = (case find (\<lambda>c. clipped mr mc c i j) (rev cs) of
                              None \<Rightarrow> g ! i ! j | Some c \<Rightarrow> text_of c)"
    using snoc by auto
  have "0 \<le> row_start_of c" "0 \<le> col_start_of c" using snoc.prems by auto
  from fill_cell_in[OF r1 this] obtain g' where g': "fill_cell mr mc g1 c = Inr g'"
    and w: "wrote g1 g' (clipped mr mc c) (text_of c) (nat mr) (nat mc)" by auto
  have "fill_cells mr mc g (cs @ [c]) = Inr g'"
    using g1 g' by (simp add: fill_cells_append)
  moreover have "rect g' (nat mr) (nat mc)" using w by (simp add: wrote_def)
  moreover have "\<forall>i<nat mr. \<forall>j<nat mc.
              g' ! i ! j = (case find (\<lambda>c. clipped mr mc c i j) (rev (cs @ [c])) of
                              None \<Rightarrow> g ! i ! j | Some c \<Rightarrow> text_of c)"
    using w v1 by (auto simp: wrote_def)
  ultimately show ?case by blast
qed

lemma find_rev_last:
  assumes "k < length xs" "P (xs ! k)" "\<forall>k'. k < k' \<and> k' < length xs \<longrightarrow> \<not> P (xs ! k')"
  shows "find P (rev xs) = Some (xs ! k)"
  using assms
proof (induction xs rule: rev_induct)
  case Nil
  then show ?case by simp
next
  case (snoc x xs)
  show ?case
  proof (cases "k = length xs")
    case True
    then show ?thesis using snoc.prems by simp
  next
    case False
    then have k: "k < length xs" using snoc.prems by simp
    have "\<not> P x" using snoc.prems(3)[rule_format, of "length xs"] k by simp
    moreover have "find P (rev xs) = Some (xs ! k)"
    proof (rule snoc.IH[OF k])
      show "P (xs ! k)" using snoc.prems(2) k by (simp add: nth_append)
      show "\<forall>k'. k < k' \<and> k' < length xs \<longrightarrow> \<not> P (xs ! k')"
        using snoc.prems(3) by (auto simp: nth_append split: if_splits)
    qed
    ultimately show ?thesis using k by (simp add: nth_append)
  qed
qed

lemma start_ok_iff:
  "start_ok c \<longleftrightarrow> RowTl c \<noteq> None \<and> ColTl c \<noteq> None \<and> 0 \<le> row_start_of c \<and> 0 \<le> col_start_of c"
  by (auto simp: start_ok_def row_start_of_def col_start_of_def split: option.splits)

lemma build_grid_in:
  assumes "cs \<noteq> []" "list_all start_ok cs"
  shows "\<exists>g. build_grid cs = Inr g \<and>
           max_of row_end cs = Inr (Max (row_extent ` set cs)) \<and>
           max_of col_end cs = Inr (Max (col_extent ` set cs)) \<and>
           rect g (nat (Max (row_extent ` set cs))) (nat (Max (col_extent ` set cs))) \<and>
           (\<forall>i<nat (Max (row_extent ` set cs)). \<forall>j<nat (Max (col_extent ` set cs)).
              g ! i ! j =
                (case find (\<lambda>c. clipped (Max (row_extent ` set cs)) (Max (col_extent ` set cs)) c i j)
                        (rev cs) of
                   None \<Rightarrow> PStr '''' | Some c \<Rightarrow> text_of c))"
proof -
  let ?mr = "Max (row_extent ` set cs)" and ?mc = "Max (col_extent ` set cs)"
  have mr: "max_of row_end cs = Inr ?mr"
    using assms by (simp add: max_of_row_end list_all_iff start_ok_iff)
  have mc: "max_of col_end cs = Inr ?mc"
    using assms by (simp add: max_of_col_end list_all_iff start_ok_iff)
  have "list_all (\<lambda>c. 0 \<le> row_start_of c \<and> 0 \<le> col_start_of c) cs"
    using assms(2) by (simp add: list_all_iff start_ok_iff)
  from fill_cells_in[OF rect_init this, of ?mr ?mc]
  obtain g where g: "fill_cells ?mr ?mc (init_grid ?mr ?mc) cs = Inr g"
    and r: "rect g (nat ?mr) (nat ?mc)"
    and v: "\<forall>i<nat ?mr. \<forall>j<nat ?mc.
              g ! i ! j = (case find (\<lambda>c. clipped ?mr ?mc c i j) (rev cs) of
                              None \<Rightarrow> init_grid ?mr ?mc ! i ! j | Some c \<Rightarrow> text_of c)"
    by blast
  have b: "build_grid cs = Inr g" using mr mc g by (simp add: build_grid_def)
  have i: "\<forall>i<nat ?mr. \<forall>j<nat ?mc. init_grid ?mr ?mc ! i ! j = PStr ''''"
    by (simp add: init_grid_def)
  have "\<forall>i<nat ?mr. \<forall>j<nat ?mc.
              g ! i ! j = (case find (\<lambda>c. clipped ?mr ?mc c i j) (rev cs) of
                              None \<Rightarrow> PStr '''' | Some c \<Rightarrow> text_of c)"
    using v i by (simp split: option.splits)
  with b mr mc r show ?thesis by blast
qed

lemma extent_pos:
  assumes "cs \<noteq> []" "list_all start_ok cs" "list_all span_ok cs"
  shows "1 \<le> Max (row_extent ` set cs)" "1 \<le> Max (col_extent ` set cs)"
proof -
  obtain c where c: "c \<in> set cs" using assms(1) by (cases cs) auto
  then have "start_ok c" "span_ok c" using assms by (auto simp: list_all_iff)
  then have "1 \<le> row_extent c" "1 \<le> col_extent c"
    by (auto simp: start_ok_iff span_ok_def row_extent_def col_extent_def)
  moreover have "row_extent c \<le> Max (row_extent ` set cs)" "col_extent c \<le> Max (col_extent ` set cs)"
    using c by simp_all
  ultimately show "1 \<le> Max (row_extent ` set cs)" "1 \<le> Max (col_extent ` set cs)" by linarith+
qed

lemma process_single_detection:
  assumes "cells \<noteq> []"
  shows "process_table_data (response_of cells) m =
     (case process_table cells m of Inl e \<Rightarrow> Inr None | Inr df \<Rightarrow> Inr (Some df))"
  using assms
  by (simp add: process_table_data_def process_table_data_body_def response_of_def no_cells_def
      cells_of_def split: sum.splits)

section \<open>Lemmas about the cleanup\<close>

lemma dropna_rows_id:
  assumes "length (df_index d) = length (df_data d)" "list_all row_kept (df_data d)"
  shows "dropna_rows d = d"
proof -
  have "filter (\<lambda>p. row_kept (snd p)) (zip (df_index d) (df_data d)) = zip (df_index d) (df_data d)"
    using assms(2) by (auto simp: filter_id_conv list_all_iff dest: set_zip_rightD)
  then show ?thesis using assms(1) by (simp add: dropna_rows_def Let_def)
qed

lemma take_cols_upt: "length xs = k \<Longrightarrow> take_cols [0..<k] xs = xs"
  by (auto simp: take_cols_def map_nth)

lemma dropna_cols_id:
  assumes "frame_ok d" "\<forall>j<length (df_columns d). col_kept (df_data d) j"
  shows "dropna_cols d = d"
proof -
  have k: "kept_cols d = [0..<length (df_columns d)]"
    using assms(2) by (auto simp: kept_cols_def filter_id_conv)
  have "map (take_cols [0..<length (df_columns d)]) (df_data d) = df_data d"
    using assms(1) by (auto simp: frame_ok_def list_all_iff take_cols_upt intro: map_idI)
  then show ?thesis by (simp add: dropna_cols_def k take_cols_upt)
qed

lemma reset_index_id: "df_index d = map int [0..<length (df_data d)] \<Longrightarrow> reset_index d = d"
  by (simp add: reset_index_def)

lemma dropna_rows_data: "df_data (dropna_rows d) = filter row_kept (map snd (zip (df_index d) (df_data d)))"
  by (simp add: dropna_rows_def Let_def filter_map comp_def)

lemma dropna_rows_frame: "frame_ok d \<Longrightarrow> frame_ok (dropna_rows d)"
  by (auto simp: frame_ok_def dropna_rows_def Let_def list_all_iff dest: set_zip_rightD)

lemma dropna_rows_kept: "list_all row_kept (df_data (dropna_rows d))"
  by (simp add: dropna_rows_data list_all_iff)

lemma row_kept_nth: "row_kept row \<longleftrightarrow> (\<exists>j<length row. \<not> isna (row ! j))"
  unfolding row_kept_def list_ex_iff by (metis in_set_conv_nth)

lemma cleanup_fixed:
  assumes "frame_ok d" "list_all row_kept (df_data d)"
  shows "enhanced_cleanup (reset_index (dropna_cols d)) = reset_index (dropna_cols d)"
proof -
  let ?kc = "kept_cols d"
  let ?d1 = "reset_index (dropna_cols d)"
  have cols1: "df_columns ?d1 = take_cols ?kc (df_columns d)"
    and data1: "df_data ?d1 = map (take_cols ?kc) (df_data d)"
    and idx1: "df_index ?d1 = map int [0..<length (df_data d)]"
    by (simp_all add: reset_index_def dropna_cols_def)
  have kc: "\<And>j. j \<in> set ?kc \<longleftrightarrow> j < length (df_columns d) \<and> col_kept (df_data d) j"
    by (auto simp: kept_cols_def)
  have rowlen: "\<And>row. row \<in> set (df_data d) \<Longrightarrow> length row = length (df_columns d)"
    using assms(1) by (simp add: frame_ok_def list_all_iff)
  have f1: "frame_ok ?d1"
    by (simp add: frame_ok_def cols1 data1 list_all_iff take_cols_def)
  have k1: "list_all row_kept (df_data ?d1)"
    unfolding data1 list_all_iff
  proof
    fix r1 assume "r1 \<in> set (map (take_cols ?kc) (df_data d))"
    then obtain row where row: "row \<in> set (df_data d)" and r1: "r1 = take_cols ?kc row" by auto
    have "row_kept row" using assms(2) row by (simp add: list_all_iff)
    then obtain j where j: "j < length row" "\<not> isna (row ! j)" by (auto simp: row_kept_nth)
    have "col_kept (df_data d) j" using row j by (auto simp: col_kept_def list_ex_iff)
    then have "j \<in> set ?kc" using j rowlen[OF row] by (simp add: kc)
    then have "row ! j \<in> set r1" by (auto simp: r1 take_cols_def)
    then show "row_kept r1" using j by (auto simp: row_kept_def list_ex_iff)
  qed
  have c1: "\<forall>j'<length (df_columns ?d1). col_kept (df_data ?d1) j'"
  proof (intro allI impI)
    fix j' assume "j' < length (df_columns ?d1)"
    then have j': "j' < length ?kc" by (simp add: cols1 take_cols_def)
    then have "?kc ! j' \<in> set ?kc" by simp
    then have "col_kept (df_data d) (?kc ! j')" by (simp add: kc)
    then obtain row where row: "row \<in> set (df_data d)" "\<not> isna (row ! (?kc ! j'))"
      by (auto simp: col_kept_def list_ex_iff)
    have "take_cols ?kc row ! j' = row ! (?kc ! j')" using j' by (simp add: take_cols_def)
    then have "\<not> isna (take_cols ?kc row ! j')" using row(2) by simp
    then have "\<exists>r1\<in>set (map (take_cols ?kc) (df_data d)). \<not> isna (r1 ! j')"
      using row(1) by auto
    then show "col_kept (df_data ?d1) j'"
      unfolding col_kept_def list_ex_iff data1 .
  qed
  have a: "dropna_rows ?d1 = ?d1"
    by (rule dropna_rows_id) (use k1 in \<open>simp_all add: idx1 data1\<close>)
  have b: "dropna_cols ?d1 = ?d1" using f1 c1 by (rule dropna_cols_id)
  have c: "reset_index ?d1 = ?d1" by (simp add: reset_index_def)
  show ?thesis by (simp add: enhanced_cleanup_def a b c)
qed

lemma cleanup_idem: "frame_ok df \<Longrightarrow> enhanced_cleanup (enhanced_cleanup df) = enhanced_cleanup df"
  unfolding enhanced_cleanup_def[of df]
  by (rule cleanup_fixed) (simp_all add: dropna_rows_frame dropna_rows_kept)

lemma build_grid_rect: "build_grid cs = Inr g \<Longrightarrow> \<exists>m n. rect g m n"
  by (auto simp: build_grid_def split: sum.splits intro: fill_cells_rect[OF _ rect_init])

lemma DataFrame_frame: "rect g m n \<Longrightarrow> frame_ok (DataFrame g)"
  by (cases g) (auto simp: frame_ok_def DataFrame_def rect_def)

lemma process_table_enhanced:
  "process_table cs ''enhanced'' = Inr df \<Longrightarrow> enhanced_cleanup df = df"
proof -
  assume a: "process_table cs ''enhanced'' = Inr df"
  then obtain g where g: "build_grid cs = Inr g" and df: "df = enhanced_cleanup (DataFrame g)"
    by (auto simp: process_table_def split: sum.splits)
  from build_grid_rect[OF g] obtain m n where "rect g m n" by blast
  then have "frame_ok (DataFrame g)" by (rule DataFrame_frame)
  then show ?thesis unfolding df by (rule cleanup_idem)
qed

lemma collect_tables_enhanced:
  "collect_tables ts ''enhanced'' = Inr dfs \<Longrightarrow> list_all (\<lambda>df. enhanced_cleanup df = df) dfs"
  by (induction ts arbitrary: dfs)
    (auto split: if_splits sum.splits dest: process_table_enhanced)

section \<open>Lemmas about the batch\<close>

lemma accumulate_map_filter:
  "accumulate L m acc files = acc @ List.map_filter (file_table L m) files"
  by (induction files arbitrary: acc)
    (auto simp: List.map_filter_simps file_table_def split: sum.splits option.splits)

lemma DataFrame_cols:
  "distinct (df_columns (DataFrame g)) \<and> list_all int_label (df_columns (DataFrame g))"
  by (auto simp: DataFrame_def distinct_map inj_on_def list_all_iff int_label_def)

lemma dropna_cols_distinct:
  assumes "distinct (df_columns d)"
  shows "distinct (df_columns (dropna_cols d))"
proof -
  have "distinct (kept_cols d)" by (simp add: kept_cols_def)
  moreover have "inj_on (\<lambda>j. df_columns d ! j) (set (kept_cols d))"
    using assms by (auto simp: inj_on_def kept_cols_def nth_eq_iff_index_eq)
  ultimately show ?thesis by (simp add: dropna_cols_def take_cols_def distinct_map)
qed

lemma dropna_cols_int:
  "list_all int_label (df_columns d) \<Longrightarrow> list_all int_label (df_columns (dropna_cols d))"
  by (auto simp: dropna_cols_def take_cols_def kept_cols_def list_all_iff)

lemma dropna_cols_frame: "frame_ok (dropna_cols d)"
  by (simp add: frame_ok_def dropna_cols_def take_cols_def list_all_iff)

lemma cleanup_cols:
  assumes "distinct (df_columns d)" "list_all int_label (df_columns d)"
  shows "frame_ok (enhanced_cleanup d) \<and> distinct (df_columns (enhanced_cleanup d)) \<and>
         list_all int_label (df_columns (enhanced_cleanup d))"
proof -
  have c: "df_columns (dropna_rows d) = df_columns d" by (simp add: dropna_rows_def Let_def)
  have "frame_ok (reset_index (dropna_cols (dropna_rows d)))"
    using dropna_cols_frame[of "dropna_rows d"] by (simp add: frame_ok_def reset_index_def)
  moreover have "distinct (df_columns (dropna_cols (dropna_rows d)))"
    using assms(1) by (intro dropna_cols_distinct) (simp add: c)
  moreover have "list_all int_label (df_columns (dropna_cols (dropna_rows d)))"
    using assms(2) by (intro dropna_cols_int) (simp add: c)
  ultimately show ?thesis by (simp add: enhanced_cleanup_def reset_index_def)
qed

lemma process_table_cols:
  assumes "process_table cs m = Inr df"
  shows "frame_ok df \<and> distinct (df_columns df) \<and> list_all int_label (df_columns df)"
proof -
  from assms obtain g where g: "build_grid cs = Inr g"
    and df: "df = (if m = ''enhanced'' then enhanced_cleanup (DataFrame g) else DataFrame g)"
    by (auto simp: process_table_def split: sum.splits)
  from build_grid_rect[OF g] obtain k n where "rect g k n" by blast
  then have "frame_ok (DataFrame g)" by (rule DataFrame_frame)
  then show ?thesis
    using DataFrame_cols[of g] cleanup_cols[of "DataFrame g"] by (simp add: df)
qed

lemma collect_tables_cols:
  "collect_tables ts m = Inr dfs \<Longrightarrow>
     list_all (\<lambda>df. frame_ok df \<and> distinct (df_columns df) \<and> list_all int_label (df_columns df)) dfs"
  by (induction ts arbitrary: dfs)
    (auto split: if_splits sum.splits dest: process_table_cols)

lemma process_table_data_cols:
  assumes "process_table_data ocr m = Inr (Some df)"
  shows "frame_ok df \<and> distinct (df_columns df) \<and> list_all int_label (df_columns df)"
proof -
  from assms obtain ts dfs where "collect_tables ts m = Inr (df # dfs)"
    by (auto simp: process_table_data_def process_table_data_body_def
        simp del: collect_tables.simps split: sum.splits option.splits list.splits)
  from collect_tables_cols[OF this] show ?thesis by simp
qed

lemma process_single_image_cols:
  assumes "process_single_image L img m = Some df"
  shows "frame_ok df \<and> distinct (df_columns df) \<and> list_all int_label (df_columns df)"
proof -
  from assms obtain ocr where "process_table_data ocr m = Inr (Some df)"
    by (auto simp: process_single_image_def Let_def split: sum.splits if_splits)
  then show ?thesis by (rule process_table_data_cols)
qed

lemma set_source_ok:
  assumes "frame_ok df" "distinct (df_columns df)" "list_all int_label (df_columns df)"
  shows "table_ok (set_column df source_column v)"
proof -
  have "source_column \<notin> set (df_columns df)"
    using assms(3) by (auto simp: list_all_iff int_label_def source_column_def)
  then show ?thesis
    using assms by (auto simp: table_ok_def set_column_def frame_ok_def list_all_iff)
qed

lemma file_table_ok: "file_table L m file = Some t \<Longrightarrow> table_ok t"
  by (auto simp: file_table_def split: sum.splits option.splits
      dest!: process_single_image_cols intro: set_source_ok)

lemma map_filter_ok: "list_all table_ok (List.map_filter (file_table L m) files)"
  by (induction files) (auto simp: List.map_filter_simps split: option.splits dest: file_table_ok)

lemma uniq_set: "set (uniq seen xs) = set seen \<union> set xs"
  by (induction xs arbitrary: seen) auto

lemma uniq_distinct: "distinct seen \<Longrightarrow> distinct (uniq seen xs)"
  by (induction xs arbitrary: seen) auto

lemma union_columns_set: "set (union_columns dfs) = (\<Union>t\<in>set dfs. set (df_columns t))"
  by (simp add: union_columns_def uniq_set)

lemma union_columns_distinct: "distinct (union_columns dfs)"
  by (simp add: union_columns_def uniq_distinct)

lemma value_at_present:
  assumes "distinct cols" "length row = length cols" "j < length cols"
  shows "value_at cols row (cols ! j) = row ! j"
  using assms by (simp add: value_at_def map_of_zip_nth)

lemma value_at_absent: "l \<notin> set cols \<Longrightarrow> value_at cols row l = PNone"
proof -
  assume "l \<notin> set cols"
  then have "l \<notin> fst ` set (zip cols row)" by (auto dest: set_zip_leftD)
  then have "map_of (zip cols row) l = None" by (simp add: map_of_eq_None_iff)
  then show ?thesis by (simp add: value_at_def)
qed

lemma reindex_row_same:
  assumes "distinct cols" "length row = length cols"
  shows "reindex_row cols cols row = row"
  using assms by (auto simp: reindex_row_def value_at_present intro!: nth_equalityI)

lemma pd_concat_ok:
  assumes "dfs \<noteq> []" "list_all table_ok dfs"
  shows "\<exists>df. pd_concat dfs = Inr df \<and>
           set (df_columns df) = (\<Union>t\<in>set dfs. set (df_columns t)) \<and>
           distinct (df_columns df) \<and>
           df_data df =
             concat (map (\<lambda>t. map (reindex_row (df_columns df) (df_columns t)) (df_data t)) dfs) \<and>
           df_index df = map int [0..<length (df_data df)]"
proof (cases "list_all (\<lambda>df. df_columns df = df_columns (hd dfs)) dfs")
  case True
  let ?u = "df_columns (hd dfs)"
  have hd: "hd dfs \<in> set dfs" using assms(1) by simp
  have same: "\<And>t. t \<in> set dfs \<Longrightarrow> df_columns t = ?u" using True by (simp add: list_all_iff)
  have "\<And>t. t \<in> set dfs \<Longrightarrow> map (reindex_row ?u (df_columns t)) (df_data t) = df_data t"
  proof -
    fix t assume t: "t \<in> set dfs"
    then have ok: "table_ok t" using assms(2) by (simp add: list_all_iff)
    show "map (reindex_row ?u (df_columns t)) (df_data t) = df_data t"
      using ok by (intro map_idI)
        (auto simp: same[OF t] table_ok_def frame_ok_def list_all_iff intro!: reindex_row_same)
  qed
  then have "concat (map (\<lambda>t. map (reindex_row ?u (df_columns t)) (df_data t)) dfs) =
             concat (map df_data dfs)"
    by (intro arg_cong[where f = concat] map_cong) auto
  moreover have "set ?u = (\<Union>t\<in>set dfs. set (df_columns t))"
  proof -
    have "(\<Union>t\<in>set dfs. set (df_columns t)) = (\<Union>t\<in>set dfs. set ?u)"
      by (intro SUP_cong refl arg_cong[where f = set] same)
    also have "\<dots> = set ?u" using hd by auto
    finally show ?thesis by simp
  qed
  moreover have "distinct ?u" using assms(2) hd by (auto simp: list_all_iff table_ok_def)
  ultimately show ?thesis using True assms(1) by (simp add: pd_concat_def)
next
  case False
  have "list_all (\<lambda>df. distinct (df_columns df)) dfs"
    using assms(2) by (simp add: list_all_iff table_ok_def)
  then show ?thesis
    using False assms(1)
    by (simp add: pd_concat_def Let_def union_columns_set union_columns_distinct)
qed

section \<open>The fallback of \<open>preprocess_image\<close>\<close>

text \<open>
  When the first statement that raises is the conversion itself, \<open>img\<close> is still the
  argument and the handler returns it.
\<close>

lemma preprocess_image_convert_fails:
  "mode_of L img \<noteq> ''RGB'' \<Longrightarrow> convert_rgb L img = Inl e \<Longrightarrow> preprocess_image L img mode = img"
  by (simp add: preprocess_image_def preprocess_image_try_def)

subsection \<open>Detections without cells\<close>

lemma collect_no_cells: "list_all no_cells ts \<Longrightarrow> collect_tables ts m = Inr []"
  by (induction ts) auto

lemma collect_skip: "list_all no_cells pre \<Longrightarrow> collect_tables (pre @ ts) m = collect_tables ts m"
  by (induction pre) auto

lemma body_nonempty:
  "process_table_data_body \<lparr>TableDetections = Some (pre @ t # ts)\<rparr> m =
     (case collect_tables (pre @ t # ts) m of
        Inl e \<Rightarrow> Inl e | Inr [] \<Rightarrow> Inr None | Inr (df # _) \<Rightarrow> Inr (Some df))"
  by (cases pre) (simp_all add: process_table_data_body_def)

lemma collect_first:
  assumes "list_all no_cells pre" "\<not> no_cells t"
  shows "collect_tables (pre @ t # ts) m =
     (case process_table (cells_of t) m of
        Inl e \<Rightarrow> Inl e
      | Inr df \<Rightarrow> (case collect_tables ts m of Inl e \<Rightarrow> Inl e | Inr dfs \<Rightarrow> Inr (df # dfs)))"
  using assms by (simp add: collect_skip)

section \<open>The claims\<close>

text \<open>
  C7. On the cell list of the specification's example, reconstruction in raw mode gives
  the rows \<open>["Name", "Name", "Age"]\<close> and \<open>["Ann", "30", ""]\<close>, and reconstruction in
  enhanced mode gives the same Table.
\<close>

theorem example_reconstruction:
  "process_table_data (response_of example_cells) ''raw'' =
     Inr (Some \<lparr>df_index = [0, 1], df_columns = [IntL 0, IntL 1, IntL 2],
                df_data = [[PStr ''Name'', PStr ''Name'', PStr ''Age''],
                           [PStr ''Ann'', PStr ''30'', PStr '''']]\<rparr>)
   \<and> process_table_data (response_of example_cells) ''enhanced'' =
     Inr (Some \<lparr>df_index = [0, 1], df_columns = [IntL 0, IntL 1, IntL 2],
                df_data = [[PStr ''Name'', PStr ''Name'', PStr ''Age''],
                           [PStr ''Ann'', PStr ''30'', PStr '''']]\<rparr>)"
  by code_simp

text \<open>
  C1, at the input where the code departs from it. The grid of \<open>gap_cells\<close> has a row
  and a column of empty strings only; the enhanced mode returns all three rows and all
  three columns, because \<open>dropna\<close> drops missing values and an empty string is not one.
\<close>

theorem enhanced_keeps_blank_row_and_column:
  "process_table_data (response_of gap_cells) ''enhanced'' =
     Inr (Some \<lparr>df_index = [0, 1, 2], df_columns = [IntL 0, IntL 1, IntL 2],
                df_data = [[PStr ''A'', PStr '''', PStr ''''],
                           [PStr '''', PStr '''', PStr ''''],
                           [PStr '''', PStr '''', PStr ''B'']]\<rparr>)"
  by code_simp

text \<open>
  C2 as stated fails: the first detection of \<open>second_detection_response\<close> has no cells,
  and the function returns the Table of the second detection, not \<open>None\<close>.
\<close>

theorem first_detection_without_cells_counterexample:
  "no_cells (hd (the (TableDetections second_detection_response))) \<and>
   process_table_data second_detection_response ''raw'' =
     Inr (Some \<lparr>df_index = [0, 1], df_columns = [IntL 0, IntL 1, IntL 2],
                df_data = [[PStr ''Name'', PStr ''Name'', PStr ''Age''],
                           [PStr ''Ann'', PStr ''30'', PStr '''']]\<rparr>)"
  by code_simp

text \<open>
  C2, amended. If the response carries no table detections, or none of its detections
  has cells, the function returns \<open>None\<close>, and not through the exception handler. A
  detection without cells is skipped: when detections without cells are followed by a
  detection \<open>t\<close> that has cells, and the cells of \<open>t\<close> give the Table \<open>df\<close> and no later
  detection raises, the function returns \<open>df\<close>; when \<open>t\<close> or a later detection raises, the
  body raises and the function returns \<open>None\<close>.
\<close>

theorem no_cells_returns_none:
  "((case TableDetections ocr of None \<Rightarrow> True | Some ts \<Rightarrow> list_all no_cells ts) \<longrightarrow>
      process_table_data_body ocr m = Inr None \<and> process_table_data ocr m = Inr None) \<and>
   (list_all no_cells pre \<and> \<not> no_cells t \<and>
    process_table (cells_of t) m = Inr df \<and> collect_tables ts m = Inr dfs \<longrightarrow>
      process_table_data_body \<lparr>TableDetections = Some (pre @ t # ts)\<rparr> m = Inr (Some df) \<and>
      process_table_data \<lparr>TableDetections = Some (pre @ t # ts)\<rparr> m = Inr (Some df)) \<and>
   (list_all no_cells pre \<and> \<not> no_cells t \<and>
    (process_table (cells_of t) m = Inl e \<or> collect_tables ts m = Inl e) \<longrightarrow>
      (\<exists>e'. process_table_data_body \<lparr>TableDetections = Some (pre @ t # ts)\<rparr> m = Inl e') \<and>
      process_table_data \<lparr>TableDetections = Some (pre @ t # ts)\<rparr> m = Inr None)"
proof (intro conjI impI)
  assume a: "case TableDetections ocr of None \<Rightarrow> True | Some ts \<Rightarrow> list_all no_cells ts"
  then show "process_table_data_body ocr m = Inr None"
    by (auto simp: process_table_data_body_def collect_no_cells
        split: option.splits list.splits sum.splits)
  then show "process_table_data ocr m = Inr None"
    by (simp add: process_table_data_def)
next
  assume a: "list_all no_cells pre \<and> \<not> no_cells t \<and>
    process_table (cells_of t) m = Inr df \<and> collect_tables ts m = Inr dfs"
  then have "collect_tables (pre @ t # ts) m = Inr (df # dfs)"
    by (simp add: collect_first)
  then show b: "process_table_data_body \<lparr>TableDetections = Some (pre @ t # ts)\<rparr> m = Inr (Some df)"
    by (simp add: body_nonempty)
  then show "process_table_data \<lparr>TableDetections = Some (pre @ t # ts)\<rparr> m = Inr (Some df)"
    by (simp add: process_table_data_def)
next
  assume a: "list_all no_cells pre \<and> \<not> no_cells t \<and>
    (process_table (cells_of t) m = Inl e \<or> collect_tables ts m = Inl e)"
  then have "\<exists>e'. collect_tables (pre @ t # ts) m = Inl e'"
    by (auto simp: collect_first split: sum.splits)
  then show b: "\<exists>e'. process_table_data_body \<lparr>TableDetections = Some (pre @ t # ts)\<rparr> m = Inl e'"
    by (auto simp: body_nonempty)
  then show "process_table_data \<lparr>TableDetections = Some (pre @ t # ts)\<rparr> m = Inr None"
    by (auto simp: process_table_data_def)
qed

theorem no_cells_returns_none_witness:
  "process_table_data \<lparr>TableDetections = Some [\<lparr>Cells = Some []\<rparr>, \<lparr>Cells = None\<rparr>]\<rparr> ''raw'' = Inr None \<and>
   process_table example_cells ''raw'' =
     Inr \<lparr>df_index = [0, 1], df_columns = [IntL 0, IntL 1, IntL 2],
          df_data = [[PStr ''Name'', PStr ''Name'', PStr ''Age''],
                     [PStr ''Ann'', PStr ''30'', PStr '''']]\<rparr> \<and>
   process_table_data second_detection_response ''raw'' =
     Inr (Some \<lparr>df_index = [0, 1], df_columns = [IntL 0, IntL 1, IntL 2],
                df_data = [[PStr ''Name'', PStr ''Name'', PStr ''Age''],
                           [PStr ''Ann'', PStr ''30'', PStr '''']]\<rparr>) \<and>
   process_table malformed_cells ''raw'' = Inl KeyError \<and>
   process_table_data malformed_second_response ''raw'' = Inr None"
proof -
  let ?df = "\<lparr>df_index = [0, 1], df_columns = [IntL 0, IntL 1, IntL 2],
          df_data = [[PStr ''Name'', PStr ''Name'', PStr ''Age''],
                     [PStr ''Ann'', PStr ''30'', PStr '''']]\<rparr>"
  have p: "process_table example_cells ''raw'' = Inr ?df" by code_simp
  have q: "process_table malformed_cells ''raw'' = Inl KeyError" by code_simp
  have n: "list_all no_cells [\<lparr>Cells = Some []\<rparr>]" "\<not> no_cells \<lparr>Cells = Some example_cells\<rparr>"
    "\<not> no_cells \<lparr>Cells = Some malformed_cells\<rparr>"
    by (simp_all add: no_cells_def example_cells_def malformed_cells_def)
  have c: "cells_of \<lparr>Cells = Some example_cells\<rparr> = example_cells"
    "cells_of \<lparr>Cells = Some malformed_cells\<rparr> = malformed_cells"
    by (simp_all add: cells_of_def)
  have 1: "process_table_data \<lparr>TableDetections = Some [\<lparr>Cells = Some []\<rparr>, \<lparr>Cells = None\<rparr>]\<rparr> ''raw'' = Inr None"
    using no_cells_returns_none[of "\<lparr>TableDetections = Some [\<lparr>Cells = Some []\<rparr>, \<lparr>Cells = None\<rparr>]\<rparr>" "''raw''"]
    by (simp add: no_cells_def)
  have 2: "process_table_data second_detection_response ''raw'' = Inr (Some ?df)"
    using no_cells_returns_none[of _ "''raw''" "[\<lparr>Cells = Some []\<rparr>]" "\<lparr>Cells = Some example_cells\<rparr>"
        ?df "[]" "[]"] n p c
    by (simp add: second_detection_response_def)
  have 3: "process_table_data malformed_second_response ''raw'' = Inr None"
    using no_cells_returns_none[of _ "''raw''" "[\<lparr>Cells = Some []\<rparr>]" "\<lparr>Cells = Some malformed_cells\<rparr>"
        _ "[]" _ KeyError] n q c
    by (simp add: malformed_second_response_def)
  from 1 2 3 p q show ?thesis by simp
qed

text \<open>
  C10. \<open>process_table_data\<close> never raises: it returns a value on every response, and when
  the statements inside \<open>try\<close> raise, that value is \<open>None\<close>, the value of a response in
  which no table was found.
\<close>

theorem process_table_data_never_raises:
  "(\<exists>r. process_table_data ocr m = Inr r) \<and>
   (\<forall>e. process_table_data_body ocr m = Inl e \<longrightarrow>
      process_table_data ocr m = Inr None \<and>
      process_table_data ocr m = process_table_data \<lparr>TableDetections = Some []\<rparr> m)"
  by (auto simp: process_table_data_def process_table_data_body_def split: sum.splits)

theorem process_table_data_never_raises_witness:
  "process_table_data_body (response_of malformed_cells) ''raw'' = Inl KeyError \<and>
   process_table_data (response_of malformed_cells) ''raw'' = Inr None"
proof -
  have b: "process_table_data_body (response_of malformed_cells) ''raw'' = Inl KeyError"
    by code_simp
  with process_table_data_never_raises[of "response_of malformed_cells" "''raw''"]
  show ?thesis by simp
qed

text \<open>
  C4. For a list of cells of the data model (start keys present and not negative) and a
  position \<open>(r, c)\<close> covered by the cell at index \<open>k\<close> and by no later cell, the grid is
  built and holds at \<open>(r, c)\<close> the text of that cell: the last cell in input order among
  those covering the position wins.
\<close>

theorem last_write_wins:
  assumes "list_all start_ok cells"
    and "k < length cells" and "covers (cells ! k) r c"
    and "\<forall>k'. k < k' \<and> k' < length cells \<longrightarrow> \<not> covers (cells ! k') r c"
  shows "\<exists>g. build_grid cells = Inr g \<and> 0 \<le> r \<and> 0 \<le> c \<and> nat r < length g \<and>
           nat c < length (g ! nat r) \<and> g ! nat r ! nat c = text_of (cells ! k)"
proof -
  let ?mr = "Max (row_extent ` set cells)" and ?mc = "Max (col_extent ` set cells)"
  have ne: "cells \<noteq> []" using assms(2) by auto
  from build_grid_in[OF ne assms(1)] obtain g where g: "build_grid cells = Inr g"
    and rc: "rect g (nat ?mr) (nat ?mc)"
    and v: "\<forall>i<nat ?mr. \<forall>j<nat ?mc.
              g ! i ! j = (case find (\<lambda>c. clipped ?mr ?mc c i j) (rev cells) of
                   None \<Rightarrow> PStr '''' | Some c \<Rightarrow> text_of c)"
    by blast
  have le: "\<And>x. x \<in> set cells \<Longrightarrow> row_extent x \<le> ?mr \<and> col_extent x \<le> ?mc"
    by simp
  have kin: "cells ! k \<in> set cells" using assms(2) by simp
  have sk: "start_ok (cells ! k)" using assms(1) kin by (simp add: list_all_iff)
  have r0: "0 \<le> r" "0 \<le> c"
    using sk assms(3) by (auto simp: start_ok_iff covers_def)
  have rlt: "r < ?mr" "c < ?mc"
    using le[OF kin] assms(3) by (auto simp: covers_def row_extent_def col_extent_def)
  have cl: "clipped ?mr ?mc x (nat r) (nat c) \<longleftrightarrow> covers x r c" if "x \<in> set cells" for x
    using le[OF that] r0 by (auto simp: clipped_def covers_def row_extent_def col_extent_def)
  have "find (\<lambda>x. clipped ?mr ?mc x (nat r) (nat c)) (rev cells) = Some (cells ! k)"
  proof (rule find_rev_last[OF assms(2)])
    show "clipped ?mr ?mc (cells ! k) (nat r) (nat c)" using cl[OF kin] assms(3) by simp
    show "\<forall>k'. k < k' \<and> k' < length cells \<longrightarrow> \<not> clipped ?mr ?mc (cells ! k') (nat r) (nat c)"
      using assms(4) cl by auto
  qed
  moreover have n: "nat r < nat ?mr" "nat c < nat ?mc" using r0 rlt by auto
  ultimately have "g ! nat r ! nat c = text_of (cells ! k)" using v by simp
  moreover have "nat r < length g" using rc n by (simp add: rect_def)
  moreover have "nat c < length (g ! nat r)" using rectD[OF rc n(1)] n by simp
  ultimately show ?thesis using g r0 by blast
qed

theorem last_write_wins_witness:
  "list_all start_ok overlap_cells \<and>
   covers (overlap_cells ! 0) 0 1 \<and> covers (overlap_cells ! 1) 0 1 \<and>
   (\<exists>g. build_grid overlap_cells = Inr g \<and> g ! 0 ! 1 = PStr ''B'')"
proof -
  have h: "list_all start_ok overlap_cells" "(1::nat) < length overlap_cells"
    "covers (overlap_cells ! 1) 0 1" "covers (overlap_cells ! 0) 0 1"
    "\<forall>k'. 1 < k' \<and> k' < length overlap_cells \<longrightarrow> \<not> covers (overlap_cells ! k') 0 1"
    by (auto simp: overlap_cells_def start_ok_def covers_def row_start_of_def row_span_of_def
        col_start_of_def col_span_of_def)
  have t: "text_of (overlap_cells ! 1) = PStr ''B''"
    by (simp add: overlap_cells_def text_of_def)
  from last_write_wins[OF h(1) h(2) h(3) h(5)] t h show ?thesis by auto
qed

text \<open>
  C5. For a non-empty list of cells of the data model (start keys present and not
  negative, spans at least one) and a mode other than the enhanced one, the Table of
  the response has exactly \<open>max_row\<close> rows and \<open>max_col\<close> columns, where \<open>max_row\<close> is the
  maximum of \<open>row_start + row_span\<close> and \<open>max_col\<close> the maximum of \<open>col_start + col_span\<close>
  over the cells; every row holds \<open>max_col\<close> values.
\<close>

theorem raw_table_size:
  assumes "cells \<noteq> []" "list_all start_ok cells" "list_all span_ok cells"
    and "processing_mode \<noteq> ''enhanced''"
  shows "\<exists>df. process_table_data (response_of cells) processing_mode = Inr (Some df) \<and>
     int (length (df_data df)) = Max (row_extent ` set cells) \<and>
     int (length (df_index df)) = Max (row_extent ` set cells) \<and>
     int (length (df_columns df)) = Max (col_extent ` set cells) \<and>
     list_all (\<lambda>row. int (length row) = Max (col_extent ` set cells)) (df_data df)"
proof -
  let ?mr = "Max (row_extent ` set cells)" and ?mc = "Max (col_extent ` set cells)"
  from build_grid_in[OF assms(1,2)] obtain g where g: "build_grid cells = Inr g"
    and r: "rect g (nat ?mr) (nat ?mc)" by blast
  have pos: "1 \<le> ?mr" "1 \<le> ?mc" using extent_pos[OF assms(1-3)] by auto
  have lg: "length g = nat ?mr" using r by (simp add: rect_def)
  have rows: "list_all (\<lambda>row. length row = nat ?mc) g" using r by (simp add: rect_def)
  have "g \<noteq> []" using lg pos by auto
  then obtain row rest where gr: "g = row # rest" by (cases g) auto
  then have lrow: "length row = nat ?mc" using rows by simp
  have p: "process_table cells processing_mode = Inr (DataFrame g)"
    using g assms(4) by (simp add: process_table_def)
  have "process_table_data (response_of cells) processing_mode = Inr (Some (DataFrame g))"
    using p by (simp add: process_single_detection[OF assms(1)])
  moreover have "int (length (df_data (DataFrame g))) = ?mr"
    using lg pos by (simp add: DataFrame_def)
  moreover have "int (length (df_index (DataFrame g))) = ?mr"
    using lg pos by (simp add: DataFrame_def)
  moreover have "int (length (df_columns (DataFrame g))) = ?mc"
    using gr lrow pos by (simp add: DataFrame_def)
  moreover have "list_all (\<lambda>row. int (length row) = ?mc) (df_data (DataFrame g))"
    using rows pos by (simp add: DataFrame_def list_all_iff)
  ultimately show ?thesis by blast
qed

theorem raw_table_size_witness:
  "example_cells \<noteq> [] \<and> list_all start_ok example_cells \<and> list_all span_ok example_cells \<and>
   Max (row_extent ` set example_cells) = 2 \<and> Max (col_extent ` set example_cells) = 3 \<and>
   (\<exists>df. process_table_data (response_of example_cells) ''raw'' = Inr (Some df) \<and>
     int (length (df_data df)) = 2 \<and> int (length (df_columns df)) = 3)"
proof -
  have h: "example_cells \<noteq> []" "list_all start_ok example_cells" "list_all span_ok example_cells"
    by (simp_all add: example_cells_def start_ok_def span_ok_def row_span_of_def col_span_of_def)
  have m: "Max (row_extent ` set example_cells) = 2" "Max (col_extent ` set example_cells) = 3"
    by (simp_all add: example_cells_def row_extent_def col_extent_def row_span_of_def
        col_span_of_def row_start_of_def col_start_of_def)
  have "''raw'' \<noteq> ''enhanced''" by simp
  from raw_table_size[OF h this] m h show ?thesis by auto
qed




text \<open>
  C8. A Table returned in enhanced mode is a fixed point of the cleanup of lines 99-100:
  dropping the all-missing rows, then the all-missing columns, then renumbering the
  rows, returns it unchanged.
\<close>

theorem enhanced_cleanup_idempotent:
  assumes "process_table_data ocr ''enhanced'' = Inr (Some t)"
  shows "enhanced_cleanup t = t"
proof -
  from assms obtain ts dfs where "collect_tables ts ''enhanced'' = Inr (t # dfs)"
    by (auto simp: process_table_data_def process_table_data_body_def
        simp del: collect_tables.simps split: sum.splits option.splits list.splits)
  from collect_tables_enhanced[OF this] show ?thesis by simp
qed

theorem enhanced_cleanup_idempotent_witness:
  "process_table_data (response_of null_column_cells) ''enhanced'' =
     Inr (Some \<lparr>df_index = [0, 1], df_columns = [IntL 1],
                df_data = [[PStr ''A''], [PStr ''B'']]\<rparr>) \<and>
   enhanced_cleanup \<lparr>df_index = [0, 1], df_columns = [IntL 1],
                     df_data = [[PStr ''A''], [PStr ''B'']]\<rparr> =
     \<lparr>df_index = [0, 1], df_columns = [IntL 1], df_data = [[PStr ''A''], [PStr ''B'']]\<rparr>"
proof -
  have e: "process_table_data (response_of null_column_cells) ''enhanced'' =
     Inr (Some \<lparr>df_index = [0, 1], df_columns = [IntL 1],
                df_data = [[PStr ''A''], [PStr ''B'']]\<rparr>)"
    by code_simp
  from enhanced_cleanup_idempotent[OF e] e show ?thesis by simp
qed

text \<open>
  C3. Whatever the services do: if no file contributes a Table, the batch ends with
  "no valid data"; otherwise it ends with one combined frame, whose column labels are
  the union of the labels of the contributed Tables, whose rows are the rows of those
  Tables in the order of the files, each read at the combined labels, and whose rows
  are numbered from zero. Reading a row at a label of its own Table gives its value
  there; at any other label it gives the missing value.
\<close>

theorem batch_result:
  "(List.map_filter (file_table L m) files = [] \<longrightarrow> run_batch L m files = NoValidData) \<and>
   (List.map_filter (file_table L m) files \<noteq> [] \<longrightarrow>
      (\<exists>df. run_batch L m files = Combined df \<and>
         set (df_columns df) = (\<Union>t\<in>set (List.map_filter (file_table L m) files). set (df_columns t)) \<and>
         df_data df =
           concat (map (\<lambda>t. map (reindex_row (df_columns df) (df_columns t)) (df_data t))
                    (List.map_filter (file_table L m) files)) \<and>
         df_index df = map int [0..<length (df_data df)] \<and>
         (\<forall>t\<in>set (List.map_filter (file_table L m) files). \<forall>row\<in>set (df_data t).
            (\<forall>j<length (df_columns t). value_at (df_columns t) row (df_columns t ! j) = row ! j) \<and>
            (\<forall>l. l \<notin> set (df_columns t) \<longrightarrow> value_at (df_columns t) row l = PNone))))"
proof (intro conjI impI)
  assume "List.map_filter (file_table L m) files = []"
  then show "run_batch L m files = NoValidData"
    by (simp add: run_batch_def accumulate_map_filter)
next
  let ?ts = "List.map_filter (file_table L m) files"
  assume ne: "?ts \<noteq> []"
  have ok: "list_all table_ok ?ts" by (rule map_filter_ok)
  from pd_concat_ok[OF ne ok] obtain df where df: "pd_concat ?ts = Inr df"
    and c: "set (df_columns df) = (\<Union>t\<in>set ?ts. set (df_columns t))"
    and d: "df_data df = concat (map (\<lambda>t. map (reindex_row (df_columns df) (df_columns t)) (df_data t)) ?ts)"
    and i: "df_index df = map int [0..<length (df_data df)]" by blast
  have r: "run_batch L m files = Combined df"
    using ne df by (simp add: run_batch_def accumulate_map_filter)
  have v: "\<forall>t\<in>set ?ts. \<forall>row\<in>set (df_data t).
            (\<forall>j<length (df_columns t). value_at (df_columns t) row (df_columns t ! j) = row ! j) \<and>
            (\<forall>l. l \<notin> set (df_columns t) \<longrightarrow> value_at (df_columns t) row l = PNone)"
    using ok by (auto simp: list_all_iff table_ok_def frame_ok_def value_at_present value_at_absent)
  from r c d i v show "\<exists>df. run_batch L m files = Combined df \<and>
         set (df_columns df) = (\<Union>t\<in>set ?ts. set (df_columns t)) \<and>
         df_data df = concat (map (\<lambda>t. map (reindex_row (df_columns df) (df_columns t)) (df_data t)) ?ts) \<and>
         df_index df = map int [0..<length (df_data df)] \<and>
         (\<forall>t\<in>set ?ts. \<forall>row\<in>set (df_data t).
            (\<forall>j<length (df_columns t). value_at (df_columns t) row (df_columns t ! j) = row ! j) \<and>
            (\<forall>l. l \<notin> set (df_columns t) \<longrightarrow> value_at (df_columns t) row l = PNone))"
    by blast
qed

theorem batch_result_witness:
  "run_batch demo_services ''raw'' [(''bad.png'', 0)] = NoValidData \<and>
   run_batch demo_services ''raw'' demo_files =
     Combined \<lparr>df_index = [0, 1, 2],
       df_columns = [IntL 0, IntL 1, IntL 2, source_column],
       df_data = [[PStr ''Name'', PStr ''Name'', PStr ''Age'', PStr ''a.png''],
                  [PStr ''Ann'', PStr ''30'', PStr '''', PStr ''a.png''],
                  [PStr ''A'', PStr ''B'', PNone, PStr ''b.png'']]\<rparr>"
proof -
  have a: "List.map_filter (file_table demo_services ''raw'') [(''bad.png'', 0)] = []"
    by code_simp
  have b: "List.map_filter (file_table demo_services ''raw'') demo_files \<noteq> []"
    by code_simp
  have 1: "run_batch demo_services ''raw'' [(''bad.png'', 0)] = NoValidData"
    using batch_result[of demo_services "''raw''" "[(''bad.png'', 0)]"] a by blast
  obtain df where 2: "run_batch demo_services ''raw'' demo_files = Combined df"
    using batch_result[of demo_services "''raw''" demo_files] b by blast
  have "run_batch demo_services ''raw'' demo_files =
     Combined \<lparr>df_index = [0, 1, 2],
       df_columns = [IntL 0, IntL 1, IntL 2, source_column],
       df_data = [[PStr ''Name'', PStr ''Name'', PStr ''Age'', PStr ''a.png''],
                  [PStr ''Ann'', PStr ''30'', PStr '''', PStr ''a.png''],
                  [PStr ''A'', PStr ''B'', PNone, PStr ''b.png'']]\<rparr>"
    by code_simp
  with 1 2 show ?thesis by simp
qed

text \<open>
  C6, at an input where the code departs from it. The image is grayscale, so line 38
  rebinds \<open>img\<close> to the RGB copy; in enhanced mode the crop rebinds it again and the
  border raises, in default mode the downscaling raises. The handler returns \<open>img\<close>,
  which is the converted (and cropped) image, not the image the function was given.
\<close>

theorem preprocess_returns_rebound_image:
  "gray_image = (''L'', (3000, 1000)) \<and>
   preprocess_image_try failing_services gray_image ''enhanced'' = Inl (''RGB'', (10, 10)) \<and>
   preprocess_image failing_services gray_image ''enhanced'' = (''RGB'', (10, 10)) \<and>
   preprocess_image_try failing_services gray_image ''default'' = Inl (''RGB'', (3000, 1000)) \<and>
   preprocess_image failing_services gray_image ''default'' = (''RGB'', (3000, 1000))"
  by code_simp

end
